theory Spec2Isabelle
  imports Main "HOL-Library.Sublist"
begin

section \<open>Common runtime notions\<close>

text \<open>
  Strings of the program are modelled as \<^typ>\<open>string\<close>. The functions below compare
  strings as wholes, cut them at the ASCII character \<open>/\<close> and test them for decimal
  digits, so the encoding of characters beyond ASCII plays no role.

  An \<open>async\<close> method returns a promise. A promise settles either with a value or with the
  reason of a rejection (what a \<open>throw\<close> inside the body would produce).
\<close>

datatype 'a promise = Fulfilled 'a | Rejected string

text \<open>
  A JavaScript \<open>Map\<close> with string keys keeps its entries in insertion order. \<open>set\<close> on a
  key that is present replaces the value where the entry stands; on a new key it appends
  the entry. \<open>get\<close> returns the value of the entry, or \<open>undefined\<close> (here \<open>None\<close>).
\<close>

fun map_set :: "'k \<Rightarrow> 'v \<Rightarrow> ('k \<times> 'v) list \<Rightarrow> ('k \<times> 'v) list" where
  "map_set k v [] = [(k, v)]"
| "map_set k v ((k', v') # m) =
     (if k' = k then (k, v) # m else (k', v') # map_set k v m)"

definition map_get :: "'k \<Rightarrow> ('k \<times> 'v) list \<Rightarrow> 'v option" where
  "map_get k m = map_of m k"

definition map_values :: "('k \<times> 'v) list \<Rightarrow> 'v list" where
  "map_values m = map snd m"

section \<open>The shadow code graph (lib/graph.ts)\<close>

datatype nodeType = Title | Subtitle | Chapter | Subchapter | Part | Section

datatype refType = Citation | Amendment | Repeal | Definition

record USLMNode =
  node_identifier :: string
  citation :: string
  nodeType :: nodeType

text \<open>
  The fields \<open>from\<close>, \<open>to\<close> and \<open>context\<close> of an edge are named \<open>edge_from\<close>, \<open>edge_to\<close>
  and \<open>edge_context\<close> here; \<open>context\<close> is optional in the source.
\<close>

record USLMEdge =
  edge_from :: string
  edge_to :: string
  refType :: refType
  edge_context :: "string option"

datatype severity = High | Medium | Low

text \<open>The element type of the array that \<open>detectLoopholes\<close> promises.\<close>

record finding =
  finding_type :: string
  severity :: severity
  description :: string
  affectedNodes :: "string list"

text \<open>
  The two private fields of the class: \<open>nodes\<close>, a \<open>Map\<close> from identifier to node, and
  \<open>edges\<close>, an array.
\<close>

record ShadowCodeGraph =
  nodes :: "(string \<times> USLMNode) list"
  edges :: "USLMEdge list"

definition createGraph :: ShadowCodeGraph where
  "createGraph = \<lparr>nodes = [], edges = []\<rparr>"

definition addNode :: "USLMNode \<Rightarrow> ShadowCodeGraph \<Rightarrow> ShadowCodeGraph" where
  "addNode node g = g\<lparr>nodes := map_set (node_identifier node) node (nodes g)\<rparr>"

definition addEdge :: "USLMEdge \<Rightarrow> ShadowCodeGraph \<Rightarrow> ShadowCodeGraph" where
  "addEdge edge g = g\<lparr>edges := edges g @ [edge]\<rparr>"

definition getNode :: "string \<Rightarrow> ShadowCodeGraph \<Rightarrow> USLMNode option" where
  "getNode i g = map_get i (nodes g)"

definition getEdgesFrom :: "string \<Rightarrow> ShadowCodeGraph \<Rightarrow> USLMEdge list" where
  "getEdgesFrom i g = filter (\<lambda>edge. edge_from edge = i) (edges g)"

definition getEdgesTo :: "string \<Rightarrow> ShadowCodeGraph \<Rightarrow> USLMEdge list" where
  "getEdgesTo i g = filter (\<lambda>edge. edge_to edge = i) (edges g)"

definition getAllNodes :: "ShadowCodeGraph \<Rightarrow> USLMNode list" where
  "getAllNodes g = map_values (nodes g)"

definition getAllEdges :: "ShadowCodeGraph \<Rightarrow> USLMEdge list" where
  "getAllEdges g = edges g"

text \<open>
  \<open>detectLoopholes\<close> is a stub in the source: its body is \<open>return []\<close>, whatever the graph
  holds.
\<close>

definition detectLoopholes :: "ShadowCodeGraph \<Rightarrow> finding list promise" where
  "detectLoopholes g = Fulfilled []"

text \<open>
  One call on the public surface of the class, and what it hands back. \<open>exec\<close> runs a call
  on a store and returns the reply together with the store afterwards: only \<open>addNode\<close> and
  \<open>addEdge\<close> assign to a field.
\<close>

datatype call =
    AddNode USLMNode
  | AddEdge USLMEdge
  | GetNode string
  | GetEdgesFrom string
  | GetEdgesTo string
  | GetAllNodes
  | GetAllEdges
  | DetectLoopholes

datatype reply =
    Void
  | NodeReply "USLMNode option"
  | EdgesReply "USLMEdge list"
  | NodesReply "USLMNode list"
  | FindingsReply "finding list promise"

fun exec :: "call \<Rightarrow> ShadowCodeGraph \<Rightarrow> reply \<times> ShadowCodeGraph" where
  "exec (AddNode node) g = (Void, addNode node g)"
| "exec (AddEdge edge) g = (Void, addEdge edge g)"
| "exec (GetNode i) g = (NodeReply (getNode i g), g)"
| "exec (GetEdgesFrom i) g = (EdgesReply (getEdgesFrom i g), g)"
| "exec (GetEdgesTo i) g = (EdgesReply (getEdgesTo i g), g)"
| "exec GetAllNodes g = (NodesReply (getAllNodes g), g)"
| "exec GetAllEdges g = (EdgesReply (getAllEdges g), g)"
| "exec DetectLoopholes g = (FindingsReply (detectLoopholes g), g)"

text \<open>A sequence of calls, run from left to right; the replies are dropped.\<close>

fun run :: "call list \<Rightarrow> ShadowCodeGraph \<Rightarrow> ShadowCodeGraph" where
  "run [] g = g"
| "run (c # cs) g = run cs (snd (exec c g))"

text \<open>The edges handed to \<open>addEdge\<close> in a sequence of calls, in call order.\<close>

fun added_edges :: "call list \<Rightarrow> USLMEdge list" where
  "added_edges [] = []"
| "added_edges (AddEdge edge # cs) = edge # added_edges cs"
| "added_edges (c # cs) = added_edges cs"

section \<open>The USLM parser (lib/parser.ts)\<close>

text \<open>
  The fields \<open>type\<close> and \<open>text\<close> of a reference are named \<open>ref_type\<close> and \<open>ref_text\<close>
  here, the fields \<open>type\<close> and \<open>identifier\<close> of an element \<open>el_type\<close> and
  \<open>el_identifier\<close>, and the field \<open>identifier\<close> of a document \<open>doc_identifier\<close>.
  Optional fields are options.
\<close>

record USLMReference =
  ref_type :: refType
  target :: string
  ref_text :: string

datatype USLMElement = USLMElement
  (el_type: string)
  (el_identifier: string)
  (num: "string option")
  (heading: "string option")
  (content: "string option")
  (children: "USLMElement list option")
  (refs: "USLMReference list option")

record USLMDocument =
  docType :: string
  doc_identifier :: string
  root :: USLMElement
  references :: "USLMReference list"

text \<open>
  \<open>USLMParser.parse\<close> is a stub in the source: it does not read its argument and returns
  the same object literal on every call.
\<close>

definition parse :: "string \<Rightarrow> USLMDocument promise" where
  "parse xmlContent =
     Fulfilled \<lparr>docType = ''unknown'', doc_identifier = [],
       root = USLMElement ''document'' [] None None None (Some []) (Some []),
       references = []\<rparr>"

record validation =
  valid :: bool
  errors :: "string list"

text \<open>\<open>USLMParser.validate\<close> is a stub as well, and does not read its argument either.\<close>

definition validate :: "string \<Rightarrow> validation promise" where
  "validate xmlContent = Fulfilled \<lparr>valid = True, errors = []\<rparr>"

subsection \<open>Strings and plain objects of the runtime\<close>

text \<open>
  \<open>s.split(sep)\<close> for a separator of one character: the pieces of \<open>s\<close> between the
  occurrences of the separator, empty pieces included; the empty string gives one empty
  piece.
\<close>

fun js_split :: "char \<Rightarrow> string \<Rightarrow> string list" where
  "js_split sep [] = [[]]"
| "js_split sep (c # cs) =
     (if c = sep then [] # js_split sep cs
      else (case js_split sep cs of [] \<Rightarrow> [[c]] | s # ss \<Rightarrow> (c # s) # ss))"

text \<open>\<open>Boolean(s)\<close> for a string: only the empty string is falsy.\<close>

definition Boolean :: "string \<Rightarrow> bool" where
  "Boolean s = (s \<noteq> [])"

text \<open>
  The object that \<open>parseIdentifier\<close> fills is created by the literal \<open>{}\<close>: an ordinary
  object whose prototype is \<open>Object.prototype\<close>. It is modelled by the list of its own
  properties, in the order in which \<open>Object.keys\<close>, \<open>Object.entries\<close> and \<open>for-in\<close>
  enumerate them: first the keys that are array indices (canonical decimal numerals up to
  \<open>2^32 - 2\<close>) in ascending numeric order, then the other keys in the order of their
  creation.
\<close>

type_synonym js_object = "(string \<times> string) list"

definition is_digit :: "char \<Rightarrow> bool" where
  "is_digit c = (48 \<le> (of_char c :: int) \<and> (of_char c :: int) \<le> 57)"

definition numeric_value :: "string \<Rightarrow> int" where
  "numeric_value s = foldl (\<lambda>n c. 10 * n + ((of_char c :: int) - 48)) 0 s"

definition is_array_index :: "string \<Rightarrow> bool" where
  "is_array_index s =
     (s \<noteq> [] \<and> list_all is_digit s \<and> (if hd s = CHR ''0'' then s = ''0'' else True) \<and>
      numeric_value s \<le> 4294967294)"

fun replace_value :: "string \<Rightarrow> string \<Rightarrow> js_object \<Rightarrow> js_object" where
  "replace_value k v [] = []"
| "replace_value k v ((k', v') # ps) =
     (if k' = k then (k, v) # ps else (k', v') # replace_value k v ps)"

fun insert_index :: "string \<Rightarrow> string \<Rightarrow> js_object \<Rightarrow> js_object" where
  "insert_index k v [] = [(k, v)]"
| "insert_index k v ((k', v') # ps) =
     (if is_array_index k' \<and> numeric_value k' < numeric_value k
      then (k', v') # insert_index k v ps
      else (k, v) # (k', v') # ps)"

text \<open>
  The assignment \<open>obj[k] = v\<close> of a string \<open>v\<close>:
  \<^item> the key \<open>__proto__\<close> is not an own property of the object, so the assignment reaches
    the accessor \<open>Object.prototype.__proto__\<close>, whose setter returns without doing
    anything when the value is neither an object nor \<open>null\<close>: no property is created and
    nothing is thrown;
  \<^item> a key that is an own property keeps its place and takes the new value;
  \<^item> any other key becomes a new own property (every other property of
    \<open>Object.prototype\<close> is a writable data property, which an assignment shadows).
\<close>

definition obj_set :: "string \<Rightarrow> string \<Rightarrow> js_object \<Rightarrow> js_object" where
  "obj_set k v obj =
     (if k = ''__proto__'' then obj
      else if map_of obj k \<noteq> None then replace_value k v obj
      else if is_array_index k then insert_index k v obj
      else obj @ [(k, v)])"

text \<open>\<open>Object.entries(obj)\<close>, and the own property \<open>k\<close> of \<open>obj\<close> if there is one.\<close>

definition entries :: "js_object \<Rightarrow> (string \<times> string) list" where
  "entries obj = obj"

definition own_property :: "js_object \<Rightarrow> string \<Rightarrow> string option" where
  "own_property obj k = map_of obj k"

subsection \<open>parseIdentifier\<close>

text \<open>
  The loop \<open>for (let i = 0; i < parts.length; i += 2)\<close> of the source, with the object
  \<open>result\<close> passed along.
\<close>

function pair_loop :: "string list \<Rightarrow> nat \<Rightarrow> js_object \<Rightarrow> js_object" where
  "pair_loop parts i result =
     (if i < length parts
      then pair_loop parts (i + 2)
             (if i + 1 < length parts then obj_set (parts ! i) (parts ! (i + 1)) result
              else result)
      else result)"
  by pat_completeness auto
termination
  by (relation "measure (\<lambda>(parts, i, result). length parts - i)") auto

declare pair_loop.simps [simp del]

definition parseIdentifier :: "string \<Rightarrow> js_object" where
  "parseIdentifier ident =
     pair_loop (filter Boolean (js_split CHR ''/'' ident)) 0 []"

subsection \<open>Notions of the specification used to state the properties\<close>

text \<open>
  The nonempty segments of a path, and the segments paired two by two (a last segment
  without a partner is left out).
\<close>

definition segments :: "string \<Rightarrow> string list" where
  "segments ident = filter (\<lambda>s. s \<noteq> []) (js_split CHR ''/'' ident)"

fun pairs :: "'a list \<Rightarrow> ('a \<times> 'a) list" where
  "pairs (k # v # rest) = (k, v) # pairs rest"
| "pairs [k] = []"
| "pairs [] = []"

text \<open>
  A well-formed path is written from its segments, each nonempty and free of \<open>/\<close>, by
  putting \<open>/\<close> before each. Re-joining the pairs of a mapping writes \<open>/key/value\<close> for each
  entry, in the order of the entries.
\<close>

definition path_of :: "string list \<Rightarrow> string" where
  "path_of segs = concat (map (\<lambda>s. CHR ''/'' # s) segs)"

definition is_segment :: "string \<Rightarrow> bool" where
  "is_segment s = (s \<noteq> [] \<and> CHR ''/'' \<notin> set s)"

definition rejoin :: "js_object \<Rightarrow> string" where
  "rejoin obj = concat (map (\<lambda>(k, v). CHR ''/'' # k @ CHR ''/'' # v) (entries obj))"

text \<open>
  One step of the loop as a function of the object and the pair, and the keys of the pairs
  of a list of segments.
\<close>

definition obj_step :: "js_object \<Rightarrow> string \<times> string \<Rightarrow> js_object" where
  "obj_step obj p = obj_set (fst p) (snd p) obj"

definition keys_of :: "string list \<Rightarrow> string list" where
  "keys_of segs = map fst (pairs segs)"

text \<open>
  A list of keys is in the order in which an object enumerates them when its array
  indices, if any, stand before all other keys and ascend: a key that is followed by an
  array index is a smaller array index.
\<close>

fun index_keys_first :: "string list \<Rightarrow> bool" where
  "index_keys_first (k # k' # ks) =
     ((if is_array_index k' then is_array_index k \<and> numeric_value k < numeric_value k'
       else True) \<and>
      index_keys_first (k' # ks))"
| "index_keys_first [k] = True"
| "index_keys_first [] = True"

text \<open>
  The stored key of every entry of the node map is the identifier of the stored node, and
  no key occurs twice.
\<close>

definition keyed :: "ShadowCodeGraph \<Rightarrow> bool" where
  "keyed g =
     (distinct (map fst (nodes g)) \<and> list_all (\<lambda>(k, n). k = node_identifier n) (nodes g))"

text \<open>
  What the specification expects of the dangling-reference pass: the findings of type
  \<open>dangling_reference\<close> among the result are, in order, one per edge whose target is not a
  key of the node map, of severity medium and with the two ends of the edge as affected
  nodes.
\<close>

definition is_dangling :: "ShadowCodeGraph \<Rightarrow> USLMEdge \<Rightarrow> bool" where
  "is_dangling g edge = (getNode (edge_to edge) g = None)"

definition dangling_findings :: "finding list \<Rightarrow> finding list" where
  "dangling_findings fs = filter (\<lambda>f. finding_type f = ''dangling_reference'') fs"

definition reports_each_dangling_edge :: "ShadowCodeGraph \<Rightarrow> finding list \<Rightarrow> bool" where
  "reports_each_dangling_edge g fs =
     (map (\<lambda>f. (severity f, affectedNodes f)) (dangling_findings fs) =
      map (\<lambda>edge. (Medium, [edge_from edge, edge_to edge]))
        (filter (is_dangling g) (getAllEdges g)))"

text \<open>
  Scenario C of the specification: one edge from \<open>X\<close> to an identifier that no node has.
  Scenario E: the minimal bill.
\<close>

definition scenario_C :: ShadowCodeGraph where
  "scenario_C =
     addEdge \<lparr>edge_from = ''X'', edge_to = ''/us/usc/t99/s404'', refType = Citation,
       edge_context = None\<rparr> createGraph"

definition scenario_E :: string where
  \<open>scenario_E = ''<bill identifier="/us/bill/118/hr/1"><section identifier="/us/bill/118/hr/1/s1"><ref href="/us/usc/t42/s1983">42 U.S.C. 1983</ref></section></bill>''\<close>

section \<open>Properties of the graph store\<close>

subsection \<open>The node map\<close>

lemma map_of_map_set: "map_of (map_set k v m) = (map_of m)(k \<mapsto> v)"
  by (induction m) (auto simp: fun_eq_iff)

lemma keys_map_set:
  "map fst (map_set k v m) = (if k \<in> fst ` set m then map fst m else map fst m @ [k])"
  by (induction m) force+

lemma length_map_set:
  "length (map_set k v m) = (if k \<in> fst ` set m then length m else Suc (length m))"
  by (induction m) force+

lemma set_map_set: "set (map_set k v m) \<subseteq> insert (k, v) (set m)"
  by (induction m) (auto split: if_splits)

lemma keyed_createGraph: "keyed createGraph"
  by (simp add: keyed_def createGraph_def)

lemma keyed_addNode: "keyed g \<Longrightarrow> keyed (addNode n g)"
  using set_map_set [of "node_identifier n" n "nodes g"]
  by (auto simp: keyed_def addNode_def keys_map_set list_all_iff)

lemma keyed_exec: "keyed g \<Longrightarrow> keyed (snd (exec c g))"
  by (cases c) (simp_all add: keyed_addNode, simp add: keyed_def addEdge_def)

lemma keyed_run: "keyed g \<Longrightarrow> keyed (run cs g)"
  by (induction cs arbitrary: g) (simp_all add: keyed_exec)

lemma keyed_identifiers:
  "keyed g \<Longrightarrow> map node_identifier (getAllNodes g) = map fst (nodes g)"
  by (auto simp: keyed_def getAllNodes_def map_values_def list_all_iff)

text \<open>
  C6. In a store reached from the empty one by any sequence of calls, \<open>addNode\<close> with a
  node whose identifier is already a key overwrites: \<open>getNode\<close> of that identifier then
  returns exactly the node just added (no field of the old node survives), the number of
  nodes is unchanged, the identifiers of the stored nodes stay pairwise distinct, and every
  other identifier resolves as before. \<open>addNode\<close> has no failing branch: it is a total
  function to the next store.
\<close>

theorem addNode_overwrites:
  assumes "g = run cs createGraph" and "getNode (node_identifier n) g = Some old"
  shows "getNode (node_identifier n) (addNode n g) = Some n \<and>
         length (getAllNodes (addNode n g)) = length (getAllNodes g) \<and>
         distinct (map node_identifier (getAllNodes (addNode n g))) \<and>
         (\<forall>j. j \<noteq> node_identifier n \<longrightarrow> getNode j (addNode n g) = getNode j g)"
proof -
  have k: "keyed g"
    using assms(1) by (simp add: keyed_run keyed_createGraph)
  have present: "node_identifier n \<in> fst ` set (nodes g)"
    using assms(2)
    by (auto simp: getNode_def map_get_def dest: map_of_SomeD intro: rev_image_eqI)
  have 1: "getNode (node_identifier n) (addNode n g) = Some n"
    by (simp add: getNode_def map_get_def addNode_def map_of_map_set)
  have 2: "length (getAllNodes (addNode n g)) = length (getAllNodes g)"
    using present by (simp add: getAllNodes_def map_values_def addNode_def length_map_set)
  have 3: "distinct (map node_identifier (getAllNodes (addNode n g)))"
    using keyed_addNode [OF k, of n] by (simp add: keyed_identifiers) (simp add: keyed_def)
  have 4: "\<forall>j. j \<noteq> node_identifier n \<longrightarrow> getNode j (addNode n g) = getNode j g"
    by (simp add: getNode_def map_get_def addNode_def map_of_map_set)
  from 1 2 3 4 show ?thesis by blast
qed

theorem addNode_overwrites_witness:
  "getNode ''/us/usc/t42/s1983''
     (addNode \<lparr>node_identifier = ''/us/usc/t42/s1983'', citation = ''new'', nodeType = Chapter\<rparr>
        (run [AddNode \<lparr>node_identifier = ''/us/usc/t42/s1983'', citation = ''old'',
                 nodeType = Section\<rparr>,
              AddEdge \<lparr>edge_from = ''a'', edge_to = ''b'', refType = Citation,
                 edge_context = None\<rparr>] createGraph))
   = Some \<lparr>node_identifier = ''/us/usc/t42/s1983'', citation = ''new'', nodeType = Chapter\<rparr> \<and>
   length (getAllNodes
     (addNode \<lparr>node_identifier = ''/us/usc/t42/s1983'', citation = ''new'', nodeType = Chapter\<rparr>
        (run [AddNode \<lparr>node_identifier = ''/us/usc/t42/s1983'', citation = ''old'',
                 nodeType = Section\<rparr>,
              AddEdge \<lparr>edge_from = ''a'', edge_to = ''b'', refType = Citation,
                 edge_context = None\<rparr>] createGraph))) = 1"
proof -
  let ?old = "\<lparr>node_identifier = ''/us/usc/t42/s1983'', citation = ''old'', nodeType = Section\<rparr>"
  let ?new = "\<lparr>node_identifier = ''/us/usc/t42/s1983'', citation = ''new'', nodeType = Chapter\<rparr>"
  let ?cs = "[AddNode ?old,
              AddEdge \<lparr>edge_from = ''a'', edge_to = ''b'', refType = Citation,
                edge_context = None\<rparr>]"
  have h: "getNode (node_identifier ?new) (run ?cs createGraph) = Some ?old"
    by (simp add: getNode_def map_get_def addNode_def addEdge_def createGraph_def)
  have n: "length (getAllNodes (run ?cs createGraph)) = 1"
    by (simp add: getAllNodes_def map_values_def addNode_def addEdge_def createGraph_def)
  show ?thesis
    using addNode_overwrites [OF refl h] n by simp
qed

subsection \<open>The edge list\<close>

lemma edges_run: "edges (run cs g) = edges g @ added_edges cs"
  by (induction cs arbitrary: g rule: added_edges.induct)
     (simp_all add: addEdge_def addNode_def)

text \<open>
  C7. After any sequence of calls on a new store, \<open>getAllEdges\<close> returns one edge per
  \<open>addEdge\<close> call, in the order of the calls: edges between the same pair of identifiers,
  identical ones included, are all kept.
\<close>

theorem getAllEdges_keeps_every_edge:
  "getAllEdges (run cs createGraph) = added_edges cs"
  by (simp add: getAllEdges_def edges_run createGraph_def)

text \<open>
  C8. No call removes anything: whatever the store and the call (\<open>addNode\<close>, \<open>addEdge\<close>,
  a query or \<open>detectLoopholes\<close>), the edge list before the call is a prefix of the edge list
  after it, so every edge keeps its position, and every identifier that resolved to a node
  before still resolves to one afterwards.
\<close>

theorem exec_never_removes:
  "prefix (getAllEdges g) (getAllEdges (snd (exec c g))) \<and>
   (\<forall>i. getNode i g \<noteq> None \<longrightarrow> getNode i (snd (exec c g)) \<noteq> None)"
  by (cases c)
     (auto simp: getAllEdges_def getNode_def map_get_def addNode_def addEdge_def
        map_of_map_set)

theorem exec_never_removes_witness:
  "prefix (getAllEdges scenario_C)
     (getAllEdges (snd (exec (AddNode \<lparr>node_identifier = ''X'', citation = ''new'',
        nodeType = Part\<rparr>)
       (addNode \<lparr>node_identifier = ''X'', citation = ''old'', nodeType = Section\<rparr>
          scenario_C)))) \<and>
   getNode ''X'' (addNode \<lparr>node_identifier = ''X'', citation = ''old'', nodeType = Section\<rparr>
     scenario_C) \<noteq> None \<and>
   getNode ''X'' (snd (exec (AddNode \<lparr>node_identifier = ''X'', citation = ''new'',
        nodeType = Part\<rparr>)
       (addNode \<lparr>node_identifier = ''X'', citation = ''old'', nodeType = Section\<rparr>
          scenario_C))) \<noteq> None"
proof -
  let ?g = "addNode \<lparr>node_identifier = ''X'', citation = ''old'', nodeType = Section\<rparr> scenario_C"
  let ?c = "AddNode \<lparr>node_identifier = ''X'', citation = ''new'', nodeType = Part\<rparr>"
  have before: "getNode ''X'' ?g \<noteq> None"
    by (simp add: getNode_def map_get_def addNode_def scenario_C_def addEdge_def
        createGraph_def)
  have same: "getAllEdges ?g = getAllEdges scenario_C"
    by (simp add: getAllEdges_def addNode_def)
  show ?thesis
    using exec_never_removes [of ?g ?c] before same by simp
qed

lemma count_list_filter_if:
  "count_list (filter P xs) x = (if P x then count_list xs x else 0)"
  by (induction xs) auto

text \<open>
  C10. \<open>getEdgesFrom(id)\<close> returns exactly the edges whose \<open>from\<close> is \<open>id\<close>: every such edge
  as often as the store holds it and no other edge, as a subsequence of the edge list (so
  in insertion order), and the store is the same afterwards. \<open>getEdgesTo(id)\<close> does the
  same for the field \<open>to\<close>.
\<close>

theorem edge_queries_select:
  "(\<forall>e. count_list (getEdgesFrom i g) e =
        (if edge_from e = i then count_list (getAllEdges g) e else 0)) \<and>
   subseq (getEdgesFrom i g) (getAllEdges g) \<and>
   snd (exec (GetEdgesFrom i) g) = g \<and>
   (\<forall>e. count_list (getEdgesTo i g) e =
        (if edge_to e = i then count_list (getAllEdges g) e else 0)) \<and>
   subseq (getEdgesTo i g) (getAllEdges g) \<and>
   snd (exec (GetEdgesTo i) g) = g"
  by (simp add: getEdgesFrom_def getEdgesTo_def getAllEdges_def count_list_filter_if)

subsection \<open>Loophole detection\<close>

text \<open>
  In scenario C the store holds one dangling edge, and the result of \<open>detectLoopholes\<close>
  holds no finding for it.
\<close>

theorem detectLoopholes_dangling_counterexample:
  "\<not> (\<exists>fs. detectLoopholes scenario_C = Fulfilled fs \<and>
          reports_each_dangling_edge scenario_C fs)"
  by (simp add: detectLoopholes_def reports_each_dangling_edge_def dangling_findings_def
      is_dangling_def scenario_C_def getAllEdges_def getNode_def map_get_def addEdge_def
      createGraph_def)

text \<open>
  C2, as the code has it. For every graph store, \<open>detectLoopholes\<close> is fulfilled with the
  empty list and leaves the store as it is: no finding of type \<open>dangling_reference\<close>, and no
  other finding, is returned, however many edges point to an identifier that is not a key
  of the node map.
\<close>

theorem detectLoopholes_reports_nothing:
  "\<exists>fs. detectLoopholes g = Fulfilled fs \<and> fs = [] \<and> dangling_findings fs = [] \<and>
        snd (exec DetectLoopholes g) = g"
  by (simp add: detectLoopholes_def dangling_findings_def)

section \<open>Properties of the parser\<close>

subsection \<open>parse and validate\<close>

text \<open>
  For the minimal bill of scenario E, \<open>parse\<close> does not return a document of type \<open>bill\<close>
  with one citation of \<open>/us/usc/t42/s1983\<close>.
\<close>

theorem parse_minimal_bill_counterexample:
  "\<not> (\<exists>d. parse scenario_E = Fulfilled d \<and> docType d = ''bill'' \<and>
         length (references d) = 1 \<and>
         target (references d ! 0) = ''/us/usc/t42/s1983'' \<and>
         ref_type (references d ! 0) = Citation)"
  by (simp add: parse_def)

text \<open>
  C1, as the code has it. For the minimal bill of scenario E, \<open>parse\<close> is fulfilled with
  the placeholder document: \<open>docType\<close> is \<open>unknown\<close>, the identifier is empty, the root is
  an element of type \<open>document\<close> without children or references, and the list of
  references is empty (there is no \<open>references[0]\<close>). Every other input gives the same
  document.
\<close>

theorem parse_returns_placeholder:
  "parse scenario_E =
     Fulfilled \<lparr>docType = ''unknown'', doc_identifier = [],
       root = USLMElement ''document'' [] None None None (Some []) (Some []),
       references = []\<rparr> \<and>
   (\<forall>xmlContent. parse xmlContent = parse scenario_E)"
  by (simp add: parse_def)

text \<open>
  \<open>validate\<close> reports no error for a well-formed document whose root is none of \<open>lawDoc\<close>,
  \<open>bill\<close> and \<open>resolution\<close> and that declares no namespace, and none for a text that ends
  inside its first tag.
\<close>

theorem validate_counterexample:
  "\<not> (\<exists>r. validate ''<doc/>'' = Fulfilled r \<and> errors r \<noteq> []) \<and>
   \<not> (\<exists>r. validate ''<bill'' = Fulfilled r \<and> length (errors r) = 1)"
  by (simp add: validate_def)

text \<open>
  C3, as the code has it. For every input string, \<open>validate\<close> does not raise (its promise
  is fulfilled) and checks nothing: the result has an empty list of errors and \<open>valid\<close> set,
  also for input that cannot be parsed, has no recognised root element or declares no USLM
  namespace. The flag \<open>valid\<close> is true exactly when the list of errors is empty.
\<close>

theorem validate_accepts_everything:
  "\<exists>r. validate xmlContent = Fulfilled r \<and> errors r = [] \<and> valid r \<and>
       (valid r \<longleftrightarrow> errors r = [])"
  by (simp add: validate_def)

subsection \<open>parseIdentifier: the loop\<close>

text \<open>
  The loop over the indices stores the pairs of the list of segments one after the other,
  from left to right.
\<close>

lemma pair_loop_foldl:
  "pair_loop parts i result = foldl obj_step result (pairs (drop i parts))"
proof (induction parts i result rule: pair_loop.induct)
  case (1 parts i result)
  show ?case
  proof (cases "i < length parts")
    case False
    then show ?thesis by (simp add: pair_loop.simps [of parts i result])
  next
    case True
    note inside = this
    show ?thesis
    proof (cases "i + 1 < length parts")
      case True
      have "drop i parts = parts ! i # parts ! (i + 1) # drop (i + 2) parts"
        using inside True by (simp add: Cons_nth_drop_Suc)
      then show ?thesis
        using 1 inside True by (simp add: pair_loop.simps [of parts i result] obj_step_def)
    next
      case False
      have "drop i parts = [parts ! i]"
        using inside False Cons_nth_drop_Suc [of i parts] by simp
      then show ?thesis
        using 1 inside False by (simp add: pair_loop.simps [of parts i result])
    qed
  qed
qed

lemma parseIdentifier_foldl:
  "parseIdentifier ident = foldl obj_step [] (pairs (segments ident))"
  by (simp add: parseIdentifier_def segments_def pair_loop_foldl Boolean_def [abs_def])

subsection \<open>parseIdentifier: what the returned object holds\<close>

lemma map_of_replace_value:
  "map_of obj k \<noteq> None \<Longrightarrow> map_of (replace_value k v obj) = (map_of obj)(k \<mapsto> v)"
  by (induction obj) (auto simp: fun_eq_iff)

lemma map_of_insert_index:
  "map_of obj k = None \<Longrightarrow> map_of (insert_index k v obj) = (map_of obj)(k \<mapsto> v)"
  by (induction obj) (auto simp: fun_eq_iff split: if_splits)

lemma map_of_obj_set:
  "map_of (obj_set k v obj) =
     (if k = ''__proto__'' then map_of obj else (map_of obj)(k \<mapsto> v))"
  by (auto simp: obj_set_def map_of_replace_value map_of_insert_index fun_eq_iff map_add_def
      split: option.splits)

lemma map_of_foldl_obj_step:
  "map_of (foldl obj_step acc ps) k =
     (if k = ''__proto__'' then map_of acc k
      else (case map_of (rev ps) k of Some v \<Rightarrow> Some v | None \<Rightarrow> map_of acc k))"
proof (induction ps arbitrary: acc)
  case Nil
  then show ?case by simp
next
  case (Cons p ps)
  obtain a b where p: "p = (a, b)" by (cases p)
  have step: "map_of (obj_step acc (a, b)) =
                (if a = ''__proto__'' then map_of acc else (map_of acc)(a \<mapsto> b))"
    by (simp add: obj_step_def map_of_obj_set)
  show ?case
    by (simp add: Cons p step map_add_def split: option.splits)
qed

text \<open>
  The own properties of the result, for every input: a key other than \<open>__proto__\<close> has the
  value of the last pair that carries it, and \<open>__proto__\<close> is never an own property.
\<close>

lemma parseIdentifier_own_property:
  "own_property (parseIdentifier ident) k =
     (if k = ''__proto__'' then None else map_of (rev (pairs (segments ident))) k)"
  by (simp add: own_property_def parseIdentifier_foldl map_of_foldl_obj_step
      split: option.splits)

lemma keys_replace_value: "map fst (replace_value k v obj) = map fst obj"
  by (induction obj) auto

lemma set_keys_insert_index: "fst ` set (insert_index k v obj) = insert k (fst ` set obj)"
  by (induction obj) force+

lemma distinct_insert_index:
  "k \<notin> set (map fst obj) \<Longrightarrow> distinct (map fst obj) \<Longrightarrow>
     distinct (map fst (insert_index k v obj))"
  by (induction obj) (auto simp: set_keys_insert_index)

lemma distinct_obj_set:
  "distinct (map fst obj) \<Longrightarrow> distinct (map fst (obj_set k v obj))"
  by (auto simp: obj_set_def keys_replace_value distinct_insert_index map_of_eq_None_iff)

lemma distinct_foldl_obj_step:
  "distinct (map fst acc) \<Longrightarrow> distinct (map fst (foldl obj_step acc ps))"
  by (induction ps arbitrary: acc) (simp_all add: obj_step_def distinct_obj_set)

lemma parseIdentifier_distinct_keys: "distinct (map fst (entries (parseIdentifier ident)))"
  by (simp add: entries_def parseIdentifier_foldl distinct_foldl_obj_step)

text \<open>
  Every key of the result is the key of a pair of the input, so an input in which a key
  segment occurs twice gives fewer entries than it has pairs.
\<close>

lemma parseIdentifier_keys_subset:
  "set (map fst (entries (parseIdentifier ident))) \<subseteq> set (keys_of (segments ident))"
proof
  fix k
  assume "k \<in> set (map fst (entries (parseIdentifier ident)))"
  then have "own_property (parseIdentifier ident) k \<noteq> None"
    by (simp add: entries_def own_property_def map_of_eq_None_iff)
  then have "map_of (rev (pairs (segments ident))) k \<noteq> None"
    by (simp add: parseIdentifier_own_property split: if_splits)
  then show "k \<in> set (keys_of (segments ident))"
    by (simp add: keys_of_def map_of_eq_None_iff)
qed

lemma parseIdentifier_fewer_entries:
  assumes "\<not> distinct (keys_of (segments ident))"
  shows "length (entries (parseIdentifier ident)) < length (pairs (segments ident))"
proof -
  let ?r = "map fst (entries (parseIdentifier ident))"
  let ?ks = "keys_of (segments ident)"
  have "length ?r = card (set ?r)"
    using distinct_card [OF parseIdentifier_distinct_keys, of ident] by simp
  also have "\<dots> \<le> card (set ?ks)"
    by (intro card_mono parseIdentifier_keys_subset) simp
  also have "\<dots> < length ?ks"
    using assms card_length [of ?ks] card_distinct [of ?ks] by linarith
  finally show ?thesis by (simp add: keys_of_def)
qed

text \<open>
  C4. The identifier \<open>/__proto__/x\<close> has the two segments \<open>__proto__\<close> and \<open>x\<close>, which form
  one pair, and \<open>parseIdentifier\<close> returns the object without any own property for it:
  the pair is dropped, where the claim has the mapping pair \<open>__proto__\<close> with \<open>x\<close>.
\<close>

theorem parseIdentifier_drops_proto_pair:
  "pairs (segments ''/__proto__/x'') = [(''__proto__'', ''x'')] \<and>
   entries (parseIdentifier ''/__proto__/x'') = [] \<and>
   own_property (parseIdentifier ''/__proto__/x'') ''__proto__'' = None"
  by code_simp

text \<open>
  C9. In \<open>/__proto__/1/__proto__/2\<close> the key segment \<open>__proto__\<close> occurs twice, and
  \<open>parseIdentifier\<close> keeps neither value: the claim has it keep the value \<open>2\<close> of the last
  occurrence. For a key such as \<open>a\<close> the last value is the one kept.
\<close>

theorem parseIdentifier_repeated_proto_key:
  "keys_of (segments ''/__proto__/1/__proto__/2'') = [''__proto__'', ''__proto__''] \<and>
   own_property (parseIdentifier ''/__proto__/1/__proto__/2'') ''__proto__'' = None \<and>
   entries (parseIdentifier ''/__proto__/1/__proto__/2'') = [] \<and>
   entries (parseIdentifier ''/a/1/a/2'') = [(''a'', ''2'')]"
  by code_simp

subsection \<open>parseIdentifier: the round trip\<close>

lemma js_split_no_sep: "sep \<notin> set s \<Longrightarrow> js_split sep s = [s]"
  by (induction s) auto

lemma js_split_append_sep:
  "sep \<notin> set s \<Longrightarrow> js_split sep (s @ sep # r) = s # js_split sep r"
  by (induction s) auto

lemma js_split_path_of:
  "CHR ''/'' \<notin> set s \<Longrightarrow> list_all is_segment segs \<Longrightarrow>
     js_split CHR ''/'' (s @ path_of segs) = s # segs"
proof (induction segs arbitrary: s)
  case Nil
  then show ?case by (simp add: path_of_def js_split_no_sep)
next
  case (Cons t ts)
  have "s @ path_of (t # ts) = s @ CHR ''/'' # (t @ path_of ts)"
    by (simp add: path_of_def)
  moreover have "js_split CHR ''/'' (t @ path_of ts) = t # ts"
    using Cons by (simp add: is_segment_def)
  ultimately show ?case
    using Cons.prems(1) by (simp add: js_split_append_sep)
qed

lemma segments_path_of:
  assumes "list_all is_segment segs"
  shows "segments (path_of segs) = segs"
proof -
  have "js_split CHR ''/'' ([] @ path_of segs) = [] # segs"
    using assms by (intro js_split_path_of) simp_all
  moreover have "filter (\<lambda>s. s \<noteq> []) segs = segs"
    using assms by (induction segs) (simp_all add: is_segment_def)
  ultimately show ?thesis by (simp add: segments_def)
qed

lemma index_keys_first_prefix: "index_keys_first (xs @ ys) \<Longrightarrow> index_keys_first xs"
  by (induction xs rule: index_keys_first.induct) (auto split: if_splits)

lemma index_keys_first_before:
  "index_keys_first (xs @ [k]) \<Longrightarrow> is_array_index k \<Longrightarrow>
     list_all (\<lambda>x. is_array_index x \<and> numeric_value x < numeric_value k) xs"
  by (induction xs rule: index_keys_first.induct) (auto split: if_splits)

lemma insert_index_last:
  "list_all (\<lambda>x. is_array_index x \<and> numeric_value x < numeric_value k) (map fst obj) \<Longrightarrow>
     insert_index k v obj = obj @ [(k, v)]"
  by (induction obj) auto

lemma foldl_obj_step_appends:
  "distinct (map fst (acc @ ps)) \<Longrightarrow> ''__proto__'' \<notin> set (map fst ps) \<Longrightarrow>
   index_keys_first (map fst (acc @ ps)) \<Longrightarrow>
     foldl obj_step acc ps = acc @ ps"
proof (induction ps arbitrary: acc)
  case Nil
  then show ?case by simp
next
  case (Cons p ps)
  obtain k v where p: "p = (k, v)" by (cases p)
  have fresh: "map_of acc k = None"
    using Cons.prems(1) p by (simp add: map_of_eq_None_iff)
  have not_proto: "k \<noteq> ''__proto__''"
    using Cons.prems(2) p by auto
  have "index_keys_first ((map fst acc @ [k]) @ map fst ps)"
    using Cons.prems(3) p by simp
  then have upto: "index_keys_first (map fst acc @ [k])"
    by (rule index_keys_first_prefix)
  have step: "obj_step acc p = acc @ [p]"
  proof (cases "is_array_index k")
    case True
    then have "insert_index k v acc = acc @ [(k, v)]"
      using upto by (intro insert_index_last index_keys_first_before)
    then show ?thesis
      using True fresh not_proto p by (simp add: obj_step_def obj_set_def)
  next
    case False
    then show ?thesis
      using fresh not_proto p by (simp add: obj_step_def obj_set_def)
  qed
  have "foldl obj_step (acc @ [p]) ps = (acc @ [p]) @ ps"
    using Cons.prems by (intro Cons.IH) simp_all
  then show ?case by (simp add: step)
qed

lemma rejoin_pairs: "even (length segs) \<Longrightarrow> rejoin (pairs segs) = path_of segs"
  by (induction segs rule: pairs.induct) (simp_all add: rejoin_def entries_def path_of_def)

text \<open>
  The path \<open>/a/1/a/2\<close> is well formed and has four segments, and the round trip gives
  \<open>/a/2\<close>.
\<close>

theorem round_trip_counterexample:
  "list_all is_segment [''a'', ''1'', ''a'', ''2''] \<and>
   even (length [''a'', ''1'', ''a'', ''2'']) \<and>
   path_of [''a'', ''1'', ''a'', ''2''] = ''/a/1/a/2'' \<and>
   rejoin (parseIdentifier (path_of [''a'', ''1'', ''a'', ''2''])) = ''/a/2'' \<and>
   rejoin (parseIdentifier (path_of [''a'', ''1'', ''a'', ''2'']))
     \<noteq> path_of [''a'', ''1'', ''a'', ''2'']"
  by code_simp

text \<open>
  The round trip also changes a path in which an array index is the key of a pair after a
  key that is not one, or after a larger array index, since the object enumerates its
  array indices first and in ascending order, and a path with the key \<open>__proto__\<close>. It
  keeps a path whose array indices already stand first and ascend.
\<close>

lemma round_trip_index_key: "rejoin (parseIdentifier ''/us/pl/118/5'') = ''/118/5/us/pl''"
  by code_simp

lemma round_trip_descending_index_keys:
  "rejoin (parseIdentifier ''/2/a/1/b'') = ''/1/b/2/a''"
  by code_simp

lemma round_trip_proto_key: "rejoin (parseIdentifier ''/us/usc/__proto__/x'') = ''/us/usc''"
  by code_simp

lemma round_trip_leading_index_key: "rejoin (parseIdentifier ''/118/hr'') = ''/118/hr''"
  by code_simp

text \<open>
  C5, as the code has it. For every well-formed path with an even number of nonempty
  segments whose key segments (the first of each pair) are pairwise distinct, none of them
  \<open>__proto__\<close>, and whose key segments that are array indices, if any, stand before all
  other key segments in ascending numeric order, \<open>parseIdentifier\<close> followed by re-joining
  the entries of the result in order gives the path back.
\<close>

theorem parseIdentifier_round_trip:
  assumes "list_all is_segment segs" and "even (length segs)"
    and "distinct (keys_of segs)" and "''__proto__'' \<notin> set (keys_of segs)"
    and "index_keys_first (keys_of segs)"
  shows "rejoin (parseIdentifier (path_of segs)) = path_of segs"
proof -
  have "parseIdentifier (path_of segs) = foldl obj_step [] (pairs segs)"
    using assms(1) by (simp add: parseIdentifier_foldl segments_path_of)
  also have "\<dots> = [] @ pairs segs"
    using assms(3,4,5) by (intro foldl_obj_step_appends) (simp_all add: keys_of_def)
  finally show ?thesis
    using assms(2) by (simp add: rejoin_pairs)
qed

theorem parseIdentifier_round_trip_witness:
  "list_all is_segment [''1'', ''a'', ''118'', ''hr'', ''us'', ''usc'', ''t42'', ''s1983''] \<and>
   even (length [''1'', ''a'', ''118'', ''hr'', ''us'', ''usc'', ''t42'', ''s1983'']) \<and>
   distinct (keys_of [''1'', ''a'', ''118'', ''hr'', ''us'', ''usc'', ''t42'', ''s1983'']) \<and>
   ''__proto__'' \<notin> set (keys_of [''1'', ''a'', ''118'', ''hr'', ''us'', ''usc'', ''t42'', ''s1983'']) \<and>
   index_keys_first (keys_of [''1'', ''a'', ''118'', ''hr'', ''us'', ''usc'', ''t42'', ''s1983'']) \<and>
   rejoin (parseIdentifier ''/1/a/118/hr/us/usc/t42/s1983'') = ''/1/a/118/hr/us/usc/t42/s1983''"
proof -
  let ?segs = "[''1'', ''a'', ''118'', ''hr'', ''us'', ''usc'', ''t42'', ''s1983'']"
  have a: "list_all is_segment ?segs"
    by (simp add: is_segment_def)
  have b: "even (length ?segs)"
    by simp
  have c: "distinct (keys_of ?segs)"
    by (simp add: keys_of_def)
  have d: "''__proto__'' \<notin> set (keys_of ?segs)"
    by (simp add: keys_of_def)
  have e: "index_keys_first (keys_of ?segs)"
    by code_simp
  have f: "path_of ?segs = ''/1/a/118/hr/us/usc/t42/s1983''"
    by (simp add: path_of_def)
  show ?thesis
    using parseIdentifier_round_trip [OF a b c d e] a b c d e by (simp add: f)
qed

end
